theory Spec2Isabelle
  imports Complex_Main
begin

section \<open>Python strings\<close>

text \<open>
  A Python 3 \<^verbatim>\<open>str\<close> is a sequence of Unicode code points, and \<^verbatim>\<open>len\<close> counts
  code points. A text is therefore a list of code points, each a natural number.
\<close>

type_synonym pystr = "nat list"

text \<open>
  The characters that \<^verbatim>\<open>str.strip()\<close>, \<^verbatim>\<open>str.split()\<close> and the regular expression
  class \<^verbatim>\<open>\s\<close> treat as whitespace (\<^verbatim>\<open>str.isspace\<close>): U+0009..U+000D,
  U+001C..U+0020, U+0085, U+00A0, U+1680, U+2000..U+200A, U+2028, U+2029, U+202F,
  U+205F and U+3000.
\<close>

definition is_space :: "nat \<Rightarrow> bool" where
  "is_space c \<longleftrightarrow>
     (9 \<le> c \<and> c \<le> 13) \<or> (28 \<le> c \<and> c \<le> 32) \<or> c = 133 \<or> c = 160 \<or> c = 5760 \<or>
     (8192 \<le> c \<and> c \<le> 8202) \<or> c = 8232 \<or> c = 8233 \<or> c = 8239 \<or> c = 8287 \<or>
     c = 12288"

definition py_strip :: "pystr \<Rightarrow> pystr" where
  \<comment> \<open>\<^verbatim>\<open>s.strip()\<close>\<close>
  "py_strip s = rev (dropWhile is_space (rev (dropWhile is_space s)))"

fun split_ws :: "pystr \<Rightarrow> pystr \<Rightarrow> pystr list" where
  \<comment> \<open>the scan of \<^verbatim>\<open>s.split()\<close>; the first argument is the word being read\<close>
  "split_ws cur [] = (if cur = [] then [] else [cur])"
| "split_ws cur (c # cs) =
     (if is_space c then (if cur = [] then split_ws [] cs else cur # split_ws [] cs)
      else split_ws (cur @ [c]) cs)"

definition py_split :: "pystr \<Rightarrow> pystr list" where
  \<comment> \<open>\<^verbatim>\<open>s.split()\<close>: the maximal runs of non-whitespace characters\<close>
  "py_split s = split_ws [] s"

fun py_join :: "pystr \<Rightarrow> pystr list \<Rightarrow> pystr" where
  \<comment> \<open>\<^verbatim>\<open>sep.join(xs)\<close>\<close>
  "py_join sep [] = []"
| "py_join sep [x] = x"
| "py_join sep (x # y # ys) = x @ sep @ py_join sep (y # ys)"

definition py_index :: "nat \<Rightarrow> int \<Rightarrow> nat" where
  \<comment> \<open>a slice bound \<^verbatim>\<open>i\<close> on a sequence of length \<^verbatim>\<open>n\<close>: a negative bound counts
      from the end, and the result is clamped to \<^verbatim>\<open>0..n\<close>\<close>
  "py_index n i = (if i < 0 then nat (int n + i) else min n (nat i))"

definition py_slice :: "'a list \<Rightarrow> int \<Rightarrow> int \<Rightarrow> 'a list" where
  \<comment> \<open>\<^verbatim>\<open>xs[i:j]\<close>\<close>
  "py_slice xs i j =
     (let a = py_index (length xs) i; b = py_index (length xs) j
      in take (b - a) (drop a xs))"

definition py_upto :: "'a list \<Rightarrow> int \<Rightarrow> 'a list" where
  \<comment> \<open>\<^verbatim>\<open>xs[:j]\<close>\<close>
  "py_upto xs j = take (py_index (length xs) j) xs"

definition py_from :: "'a list \<Rightarrow> int \<Rightarrow> 'a list" where
  \<comment> \<open>\<^verbatim>\<open>xs[i:]\<close>\<close>
  "py_from xs i = drop (py_index (length xs) i) xs"

fun rfind_down :: "pystr \<Rightarrow> pystr \<Rightarrow> nat \<Rightarrow> nat \<Rightarrow> int" where
  \<comment> \<open>the highest of the positions \<^verbatim>\<open>lo, ..., lo + k - 1\<close> at which \<^verbatim>\<open>sub\<close> occurs,
      or \<^verbatim>\<open>-1\<close>\<close>
  "rfind_down text sub lo 0 = - 1"
| "rfind_down text sub lo (Suc k) =
     (if take (length sub) (drop (lo + k) text) = sub then int (lo + k)
      else rfind_down text sub lo k)"

definition py_rfind :: "pystr \<Rightarrow> pystr \<Rightarrow> int \<Rightarrow> int \<Rightarrow> int" where
  \<comment> \<open>\<^verbatim>\<open>text.rfind(sub, start, end)\<close>: the bounds are adjusted as slice bounds are
      (\<^verbatim>\<open>start\<close> is not clamped from above), and the occurrence must lie wholly inside
      \<^verbatim>\<open>text[start:end]\<close>\<close>
  "py_rfind text sub start end =
     (let n = int (length text);
          e = (if end > n then n else if end < 0 then max 0 (end + n) else end);
          s = (if start < 0 then max 0 (start + n) else start)
      in if e - s < int (length sub) then - 1
         else rfind_down text sub (nat s) (nat (e - s - int (length sub) + 1)))"

section \<open>Chunker (summarize.py)\<close>

definition chunk_end :: "pystr \<Rightarrow> int \<Rightarrow> int \<Rightarrow> int" where
  \<comment> \<open>the value of \<^verbatim>\<open>end\<close> after the boundary search of one loop iteration\<close>
  "chunk_end text approx_chars start =
     (let n = int (length text);
          end = min n (start + approx_chars)
      in if end < n then
           (let split_at = py_rfind text [10] start end;
                split_at = (if split_at = - 1 then py_rfind text [46, 32] start end
                            else split_at);
                split_at = (if split_at = - 1 then py_rfind text [32] start end
                            else split_at);
                split_at = (if split_at = - 1 then end else split_at + 1)
            in split_at)
         else end)"

partial_function (option)
  chunk_loop :: "pystr \<Rightarrow> int \<Rightarrow> int \<Rightarrow> pystr list \<Rightarrow> pystr list option"
where
  "chunk_loop text approx_chars start chunks =
     (if start < int (length text) then
        (let end = chunk_end text approx_chars start;
             chunk = py_strip (py_slice text start end);
             chunks = (if chunk \<noteq> [] then chunks @ [chunk] else chunks);
             start = end;
             start = (if start = end then start + 1 else start)
         in chunk_loop text approx_chars start chunks)
      else Some chunks)"

definition chunk_text_by_tokens :: "pystr \<Rightarrow> int \<Rightarrow> pystr list option" where
  \<comment> \<open>\<^verbatim>\<open>None\<close>: the loop never ends\<close>
  "chunk_text_by_tokens text approx_chars = chunk_loop text approx_chars 0 []"

section \<open>Summarization orchestrator (summarize.py)\<close>

text \<open>
  The summarization pipeline is an external capability. A call
  \<^verbatim>\<open>summarizer(text, max_length=a, min_length=b, do_sample=False)[0]['summary_text']\<close>
  either yields a summary or raises; \<^verbatim>\<open>None\<close> stands for any exception raised inside
  the enclosing \<^verbatim>\<open>try\<close>.
\<close>

type_synonym summarizer = "pystr \<Rightarrow> int \<Rightarrow> int \<Rightarrow> pystr option"

definition failing_summarizer :: summarizer where
  \<comment> \<open>a capability that raises on every call\<close>
  "failing_summarizer text max_length min_length = None"

definition no_content :: pystr where
  "no_content = map of_char ''No content to summarize.''"

definition summarize_chunk :: "summarizer \<Rightarrow> int \<Rightarrow> int \<Rightarrow> pystr \<Rightarrow> pystr" where
  \<comment> \<open>the body of the loop over the chunks: the value appended to \<^verbatim>\<open>summaries\<close>\<close>
  "summarize_chunk summarizer summary_max_length summary_min_length chunk =
     (if length (py_split chunk) < 10 then chunk
      else (case summarizer chunk (min 100 summary_max_length) (min 20 summary_min_length) of
              Some out \<Rightarrow> out
            | None \<Rightarrow> py_upto chunk 100))"

definition generate_summary ::
  "summarizer \<Rightarrow> pystr \<Rightarrow> int \<Rightarrow> int \<Rightarrow> int \<Rightarrow> pystr option" where
  \<comment> \<open>\<^verbatim>\<open>None\<close>: the call never returns (the chunker loops forever). The function has no
      \<^verbatim>\<open>raise\<close>, and every call of the capability is inside a \<^verbatim>\<open>try\<close>.\<close>
  "generate_summary summarizer text max_chunk_chars summary_max_length summary_min_length =
     (if length text < 150 then Some (py_upto text summary_max_length)
      else if length text < 2000 then
        (case summarizer text summary_max_length summary_min_length of
           Some out \<Rightarrow> Some out
         | None \<Rightarrow> Some (py_upto text summary_max_length))
      else
        (case chunk_text_by_tokens text max_chunk_chars of
           None \<Rightarrow> None
         | Some chunks \<Rightarrow>
             (if chunks = [] then Some no_content
              else
                (let summaries =
                       map (summarize_chunk summarizer summary_max_length summary_min_length)
                         chunks
                 in if length summaries = 1 then Some (summaries ! 0)
                    else Some (py_upto (py_join [32] summaries) summary_max_length)))))"

section \<open>Text extractor (extract.py)\<close>

datatype error = Exception pystr

datatype 'a py_result = Raises pystr | Returns 'a

text \<open>
  A page is what \<^verbatim>\<open>page.extract_text()\<close> does on it: it raises, or returns
  \<^verbatim>\<open>None\<close> or a string. A file object is what \<^verbatim>\<open>pdfplumber.open\<close> does on it: it
  raises, or yields the pages in order.
\<close>

type_synonym page = "pystr option py_result"

fun extract_pages :: "pystr \<Rightarrow> page list \<Rightarrow> error + pystr" where
  \<comment> \<open>the loop over \<^verbatim>\<open>pdf.pages\<close>, from the text accumulated so far\<close>
  "extract_pages text [] = Inr text"
| "extract_pages text (Raises e # pages) =
     Inl (Exception (map of_char ''PDF extraction failed: '' @ e))"
| "extract_pages text (Returns page_text # pages) =
     (case page_text of
        None \<Rightarrow> extract_pages text pages
      | Some t \<Rightarrow> (if t \<noteq> [] then extract_pages (text @ t @ [10]) pages
                   else extract_pages text pages))"

definition extract_text_from_pdf_fileobj :: "page list py_result \<Rightarrow> error + pystr" where
  "extract_text_from_pdf_fileobj fileobj =
     (case fileobj of
        Raises e \<Rightarrow> Inl (Exception (map of_char ''PDF extraction failed: '' @ e))
      | Returns pages \<Rightarrow> extract_pages [] pages)"

fun yielded_texts :: "pystr option list \<Rightarrow> pystr list" where
  \<comment> \<open>the texts of the pages that yield text, in page order\<close>
  "yielded_texts [] = []"
| "yielded_texts (None # rs) = yielded_texts rs"
| "yielded_texts (Some t # rs) = (if t \<noteq> [] then t # yielded_texts rs else yielded_texts rs)"

section \<open>Relevance highlighter (highlight.py)\<close>

text \<open>
  The NLTK tokenizer is an external capability: \<^verbatim>\<open>sent_tokenize(text)\<close> yields the
  sentences, or anything in the \<^verbatim>\<open>try\<close> raises (\<^verbatim>\<open>None\<close>) and the regular
  expression takes over.
\<close>

type_synonym tokenizer = "pystr \<Rightarrow> pystr list option"

fun re_split :: "bool \<Rightarrow> pystr \<Rightarrow> pystr \<Rightarrow> pystr list" where
  \<comment> \<open>\<^verbatim>\<open>re.split(r'(?<=[.!?])\s+', text)\<close>: a separator is a maximal run of whitespace
      that follows \<^verbatim>\<open>.\<close>, \<^verbatim>\<open>!\<close> or \<^verbatim>\<open>?\<close>. The flag says that the scan is inside a
      separator; the second argument is the piece being read.\<close>
  "re_split skip cur [] = [cur]"
| "re_split skip cur (c # cs) =
     (if skip \<and> is_space c then re_split True cur cs
      else if is_space c \<and> cur \<noteq> [] \<and> last cur \<in> {46, 33, 63}
        then cur # re_split True [] cs
      else re_split False (cur @ [c]) cs)"

definition split_into_sentences :: "tokenizer \<Rightarrow> pystr \<Rightarrow> pystr list" where
  "split_into_sentences sent_tokenize text =
     (let sentences = (case sent_tokenize text of
                         Some sentences \<Rightarrow> sentences
                       | None \<Rightarrow> re_split False [] text)
      in filter (\<lambda>s. s \<noteq> []) (map py_strip sentences))"

record highlight =
  index :: int
  sentence :: pystr
  score :: real

text \<open>
  Fitting the TF-IDF vectorizer, transforming the sentences and the summary, and
  \<^verbatim>\<open>cosine_similarity(sent_vectors, summary_vector).flatten()\<close> are an external capability
  too: it raises (\<^verbatim>\<open>None\<close>), or gives one similarity for each sentence, here a function
  of the sentence's position. Scores are real numbers: the order of the scores is all
  that the sorting looks at.
\<close>

type_synonym vectorizer = "pystr list \<Rightarrow> pystr \<Rightarrow> (nat \<Rightarrow> real) option"

definition linspace :: "real \<Rightarrow> real \<Rightarrow> nat \<Rightarrow> real list" where
  \<comment> \<open>\<^verbatim>\<open>np.linspace(start, stop, num)\<close>\<close>
  "linspace start stop num =
     map (\<lambda>i. if num = 1 then start
               else start + real i * ((stop - start) / real (num - 1))) [0..<num]"

definition argsort :: "real list \<Rightarrow> nat list" where
  \<comment> \<open>\<^verbatim>\<open>np.argsort(xs)\<close>: the positions of \<^verbatim>\<open>xs\<close> in ascending order of their values.
      NumPy leaves the order of equal values open; here they keep their order.\<close>
  "argsort xs = sort_key (\<lambda>i. xs ! i) [0..<length xs]"

definition combined_scores :: "(nat \<Rightarrow> real) \<Rightarrow> nat \<Rightarrow> real list" where
  \<comment> \<open>the value of \<^verbatim>\<open>combined_scores\<close> for \<^verbatim>\<open>n\<close> sentences with similarities \<^verbatim>\<open>sim\<close>\<close>
  "combined_scores sim n = map2 (*) (map sim [0..<n]) (linspace 1.0 0.7 n)"

definition top_k_sentences ::
  "tokenizer \<Rightarrow> vectorizer \<Rightarrow> pystr \<Rightarrow> pystr \<Rightarrow> int \<Rightarrow> highlight list" where
  "top_k_sentences sent_tokenize vectorize original_text summary_text k =
     (let sentences = split_into_sentences sent_tokenize original_text
      in if length sentences = 0 then []
         else if int (length sentences) \<le> k then
           map (\<lambda>(i, sent). \<lparr>index = int i, sentence = sent, score = 1.0\<rparr>)
             (enumerate 0 sentences)
         else
           (case vectorize sentences summary_text of
              Some sim \<Rightarrow>
                (let sim_scores = map sim [0..<length sentences];
                     position_weights = linspace 1.0 0.7 (length sentences);
                     combined_scores = map2 (*) sim_scores position_weights;
                     k = min k (int (length sentences));
                     top_indices = rev (py_from (argsort combined_scores) (- k))
                 in map (\<lambda>idx. \<lparr>index = int idx, sentence = sentences ! idx,
                                  score = combined_scores ! idx\<rparr>) top_indices)
            | None \<Rightarrow>
                map (\<lambda>i. \<lparr>index = int i, sentence = sentences ! i, score = 0.5\<rparr>)
                  [0..<nat (min k (int (length sentences)))]))"

subsection \<open>Sample capabilities\<close>

definition no_tokenizer :: tokenizer where
  \<comment> \<open>the NLTK tokenizer is unavailable: the regular expression is used\<close>
  "no_tokenizer text = None"

definition failing_vectorizer :: vectorizer where
  \<comment> \<open>vectorization raises\<close>
  "failing_vectorizer sentences summary_text = None"

definition sample_sim :: "nat \<Rightarrow> real" where
  "sample_sim i = (if i = 1 then 1 else 1 / 2)"

definition sample_vectorizer :: vectorizer where
  \<comment> \<open>vectorization succeeds: the second sentence is the most similar to the summary\<close>
  "sample_vectorizer sentences summary_text = Some sample_sim"

definition three_sentences :: pystr where
  \<comment> \<open>\<^verbatim>\<open>A. B. C.\<close>\<close>
  "three_sentences = [65, 46, 32, 66, 46, 32, 67, 46]"

section \<open>The chunker's loop\<close>

lemma rfind_down_range:
  "rfind_down text sub lo k = - 1 \<or>
   (int lo \<le> rfind_down text sub lo k \<and> rfind_down text sub lo k < int (lo + k))"
  by (induction k) auto

lemma py_rfind_lower:
  assumes "0 \<le> start"
  shows "py_rfind text sub start end = - 1 \<or> start \<le> py_rfind text sub start end"
proof -
  have "rfind_down text sub (nat start) k = - 1 \<or> start \<le> rfind_down text sub (nat start) k"
    for k
    using rfind_down_range [of "text" sub "nat start" k] assms by auto
  then show ?thesis
    using assms by (simp add: py_rfind_def Let_def)
qed

lemma chunk_end_progress:
  assumes "0 < approx_chars" "0 \<le> start" "start < int (length text)"
  shows "start < chunk_end text approx_chars start"
proof -
  define e where "e = min (int (length text)) (start + approx_chars)"
  have e: "start < e" using assms by (simp add: e_def)
  have a: "py_rfind text [10] start e = - 1 \<or> start \<le> py_rfind text [10] start e"
    using assms(2) by (rule py_rfind_lower)
  have b: "py_rfind text [46, 32] start e = - 1 \<or> start \<le> py_rfind text [46, 32] start e"
    using assms(2) by (rule py_rfind_lower)
  have c: "py_rfind text [32] start e = - 1 \<or> start \<le> py_rfind text [32] start e"
    using assms(2) by (rule py_rfind_lower)
  show ?thesis
    using e a b c unfolding chunk_end_def Let_def e_def [symmetric]
    by (auto split: if_splits)
qed

lemma chunk_loop_step:
  assumes "start < int (length text)"
  shows "chunk_loop text approx_chars start chunks =
         chunk_loop text approx_chars (chunk_end text approx_chars start + 1)
           (if py_strip (py_slice text start (chunk_end text approx_chars start)) \<noteq> []
            then chunks @ [py_strip (py_slice text start (chunk_end text approx_chars start))]
            else chunks)"
  using assms by (subst chunk_loop.simps) (simp add: Let_def)

lemma chunk_loop_done:
  assumes "\<not> start < int (length text)"
  shows "chunk_loop text approx_chars start chunks = Some chunks"
  using assms by (subst chunk_loop.simps) simp

lemma chunk_loop_terminates:
  assumes "0 < approx_chars" "0 \<le> start"
  shows "\<exists>result. chunk_loop text approx_chars start chunks = Some result"
  using assms(2)
proof (induction "nat (int (length text) - start)" arbitrary: start chunks rule: less_induct)
  case less
  show ?case
  proof (cases "start < int (length text)")
    case False
    then show ?thesis by (simp add: chunk_loop_done)
  next
    case True
    have p: "start < chunk_end text approx_chars start"
      using assms(1) less.prems True by (rule chunk_end_progress)
    have "\<exists>result. chunk_loop text approx_chars (chunk_end text approx_chars start + 1)
           (if py_strip (py_slice text start (chunk_end text approx_chars start)) \<noteq> []
            then chunks @ [py_strip (py_slice text start (chunk_end text approx_chars start))]
            else chunks) = Some result"
      using p True less.prems by (intro less.hyps) auto
    then show ?thesis by (simp only: chunk_loop_step [OF True])
  qed
qed


lemma rfind_down_absent:
  assumes "c \<in> set sub" "c \<notin> set text"
  shows "rfind_down text sub lo k = - 1"
proof (induction k)
  case 0
  show ?case by simp
next
  case (Suc k)
  have "take (length sub) (drop (lo + k) text) \<noteq> sub"
  proof
    assume "take (length sub) (drop (lo + k) text) = sub"
    then have "set sub \<subseteq> set (drop (lo + k) text)"
      by (metis set_take_subset)
    then have "set sub \<subseteq> set text"
      using set_drop_subset by fastforce
    with assms show False by auto
  qed
  with Suc show ?case by simp
qed

lemma py_rfind_absent:
  assumes "c \<in> set sub" "c \<notin> set text"
  shows "py_rfind text sub start end = - 1"
  using rfind_down_absent [OF assms] by (simp add: py_rfind_def Let_def)

lemma chunk_end_no_boundary:
  assumes "10 \<notin> set text" "32 \<notin> set text"
  shows "chunk_end text approx_chars start = min (int (length text)) (start + approx_chars)"
proof -
  have "py_rfind text [10] start end = - 1" for "end"
    using assms(1) by (intro py_rfind_absent [of 10]) simp_all
  moreover have "py_rfind text [46, 32] start end = - 1" for "end"
    using assms(2) by (intro py_rfind_absent [of 32]) simp_all
  moreover have "py_rfind text [32] start end = - 1" for "end"
    using assms(2) by (intro py_rfind_absent [of 32]) simp_all
  ultimately show ?thesis
    by (simp add: chunk_end_def Let_def)
qed

lemma replicate_10: "replicate 10 x = [x, x, x, x, x, x, x, x, x, x]"
  by (simp add: numeral_eq_Suc)

lemma replicate_8: "replicate 8 x = [x, x, x, x, x, x, x, x]"
  by (simp add: numeral_eq_Suc)

lemma chunk_ten_a:
  "chunk_text_by_tokens (replicate 10 97) 3 = Some [[97, 97, 97], [97, 97, 97], [97, 97]]"
proof -
  define t :: pystr where "t = [97, 97, 97, 97, 97, 97, 97, 97, 97, 97]"
  have len: "length t = 10" by (simp add: t_def)
  have e: "chunk_end t 3 start = min 10 (start + 3)" for start
    using chunk_end_no_boundary [of t 3 start] by (simp add: t_def)
  have s1: "py_strip (py_slice t 0 3) = [97, 97, 97]"
    by (simp add: t_def py_strip_def py_slice_def py_index_def is_space_def)
  have s2: "py_strip (py_slice t 4 7) = [97, 97, 97]"
    by (simp add: t_def py_strip_def py_slice_def py_index_def is_space_def)
  have s3: "py_strip (py_slice t 8 10) = [97, 97]"
    by (simp add: t_def py_strip_def py_slice_def py_index_def is_space_def)
  have "chunk_loop t 3 0 [] = chunk_loop t 3 4 [[97, 97, 97]]"
    by (subst chunk_loop_step) (simp_all add: len e s1)
  also have "\<dots> = chunk_loop t 3 8 [[97, 97, 97], [97, 97, 97]]"
    by (subst chunk_loop_step) (simp_all add: len e s2)
  also have "\<dots> = chunk_loop t 3 11 [[97, 97, 97], [97, 97, 97], [97, 97]]"
    by (subst chunk_loop_step) (simp_all add: len e s3)
  also have "\<dots> = Some [[97, 97, 97], [97, 97, 97], [97, 97]]"
    by (rule chunk_loop_done) (simp add: len)
  finally show ?thesis
    by (simp add: chunk_text_by_tokens_def replicate_10 t_def)
qed

lemma chunk_end_zero:
  assumes "0 \<le> start" "start < int (length text)"
  shows "chunk_end text 0 start = start"
  using assms by (simp add: chunk_end_def py_rfind_def Let_def)

lemma chunk_loop_zero:
  assumes "0 \<le> start"
  shows "chunk_loop text 0 start chunks = Some chunks"
  using assms
proof (induction "nat (int (length text) - start)" arbitrary: start rule: less_induct)
  case less
  show ?case
  proof (cases "start < int (length text)")
    case False
    then show ?thesis by (rule chunk_loop_done)
  next
    case True
    have e: "chunk_end text 0 start = start"
      using less.prems True by (rule chunk_end_zero)
    have "py_slice text start start = []"
      by (simp add: py_slice_def)
    then have s: "py_strip (py_slice text start start) = []"
      by (simp add: py_strip_def)
    have "chunk_loop text 0 (start + 1) chunks = Some chunks"
      using less.prems True by (intro less.hyps) auto
    then show ?thesis
      by (simp add: chunk_loop_step [OF True] e s)
  qed
qed

lemma zero_budget_no_content:
  assumes "2000 \<le> length text"
  shows "generate_summary summarizer text 0 summary_max_length summary_min_length =
         Some no_content"
  using assms by (simp add: generate_summary_def chunk_text_by_tokens_def chunk_loop_zero)

text \<open>
  A negative budget is not rejected either. With budget \<open>-1\<close> and a text that has no
  newline and no space, \<^verbatim>\<open>end\<close> is \<open>-1\<close> at position 0, the slice
  \<^verbatim>\<open>text[0:-1]\<close> is taken, and the next position is 0 again: the loop never ends.
\<close>

lemma chunk_loop_minus_one_stuck:
  assumes "chunk_loop text approx_chars start chunks = Some result"
  shows "\<not> (approx_chars = - 1 \<and> start = 0 \<and> 10 \<notin> set text \<and> 32 \<notin> set text \<and> text \<noteq> [])"
proof (rule chunk_loop.raw_induct
    [where P = "\<lambda>t a s cs r. \<not> (a = - 1 \<and> s = 0 \<and> 10 \<notin> set t \<and> 32 \<notin> set t \<and> t \<noteq> [])",
      OF _ assms], goal_cases)
  case (1 f t a s cs r)
  show ?case
  proof
    assume h: "a = - 1 \<and> s = 0 \<and> 10 \<notin> set t \<and> 32 \<notin> set t \<and> t \<noteq> []"
    then have e: "chunk_end t (- 1) 0 = - 1"
      by (simp add: chunk_end_no_boundary)
    from h have "0 < int (length t)" by simp
    with 1(2) h e obtain cs' where "f t (- 1) 0 cs' = Some r"
      by (simp add: Let_def)
    from 1(1) [OF this] h show False by simp
  qed
qed

lemma chunk_loop_minus_one:
  assumes "10 \<notin> set text" "32 \<notin> set text" "text \<noteq> []"
  shows "chunk_loop text (- 1) 0 chunks = None"
proof (cases "chunk_loop text (- 1) 0 chunks")
  case None
  then show ?thesis .
next
  case (Some result)
  from chunk_loop_minus_one_stuck [OF Some] assms show ?thesis by simp
qed

lemma generate_summary_minus_one:
  assumes "2000 \<le> length text" "10 \<notin> set text" "32 \<notin> set text"
  shows "generate_summary summarizer text (- 1) summary_max_length summary_min_length = None"
proof -
  from assms(1) have "text \<noteq> []" by auto
  with assms show ?thesis
    by (simp add: generate_summary_def chunk_text_by_tokens_def chunk_loop_minus_one)
qed

section \<open>Chunker: termination and coverage\<close>

text \<open>
  Claim C8. For every text and every budget \<open>B > 0\<close>, \<^verbatim>\<open>chunk_text_by_tokens\<close>
  terminates and returns a list of chunks: an iteration that starts at a position
  \<open>start\<close> inside the text is followed by position \<open>chunk_end + 1\<close> (lemma
  \<open>chunk_loop_step\<close>), which is strictly greater than \<open>start\<close>.
\<close>

theorem chunk_text_by_tokens_terminates:
  assumes "0 < approx_chars"
  shows "(\<exists>chunks. chunk_text_by_tokens text approx_chars = Some chunks) \<and>
         (\<forall>start. 0 \<le> start \<and> start < int (length text) \<longrightarrow>
            start < chunk_end text approx_chars start + 1)"
proof
  show "\<exists>chunks. chunk_text_by_tokens text approx_chars = Some chunks"
    unfolding chunk_text_by_tokens_def
    using assms by (intro chunk_loop_terminates) simp_all
next
  show "\<forall>start. 0 \<le> start \<and> start < int (length text) \<longrightarrow>
          start < chunk_end text approx_chars start + 1"
  proof (intro allI impI)
    fix start
    assume "0 \<le> start \<and> start < int (length text)"
    then have "start < chunk_end text approx_chars start"
      using assms by (intro chunk_end_progress) simp_all
    then show "start < chunk_end text approx_chars start + 1"
      by simp
  qed
qed

theorem chunk_text_by_tokens_terminates_witness:
  "(0::int) < 2 \<and>
   (\<exists>chunks. chunk_text_by_tokens [97, 32, 98] 2 = Some chunks) \<and>
   1 < chunk_end [97, 32, 98] 2 1 + 1"
proof -
  have h: "(0::int) < 2" by simp
  note t = chunk_text_by_tokens_terminates [OF h, of "[97, 32, 98]"]
  from t have "(0::int) \<le> 1 \<and> 1 < int (length [97, 32, 98 :: nat]) \<longrightarrow>
      1 < chunk_end [97, 32, 98] 2 1 + 1"
    by blast
  then have "1 < chunk_end [97, 32, 98] 2 1 + 1"
    by simp
  with t h show ?thesis by blast
qed

text \<open>
  Claim C1. Concatenating the chunks, with the separators consumed at the splits put
  back, should reproduce the text with no omission. The loop sets \<^verbatim>\<open>start = end\<close> and
  then tests \<^verbatim>\<open>start == end\<close>, which always holds, so every iteration skips the character
  at position \<^verbatim>\<open>end\<close>. On ten letters \<^verbatim>\<open>a\<close> with budget 3 there is no separator and
  nothing to trim, and the chunks together hold eight of the ten characters.
\<close>

theorem chunks_of_ten_a_omit_characters:
  "map_option concat (chunk_text_by_tokens (replicate 10 97) 3) = Some (replicate 8 97)"
  by (simp add: chunk_ten_a replicate_8)

text \<open>
  Claim C2. The text \<^verbatim>\<open>"a"*10\<close> with budget 3 should give chunks of sizes 3, 3, 3, 1.
  The code returns three chunks, of sizes 3, 3 and 2: the characters at positions 3 and
  7 are skipped.
\<close>

theorem chunk_sizes_of_ten_a:
  "map_option (map length) (chunk_text_by_tokens (replicate 10 97) 3) = Some [3, 3, 2]"
  by (simp add: chunk_ten_a)

section \<open>Orchestrator\<close>

text \<open>
  Claim C3. For every text of length at least 150 and below 2000, if the summarization
  capability raises on every call, \<^verbatim>\<open>generate_summary\<close> returns
  \<^verbatim>\<open>text[:summary_max_length]\<close> and raises nothing; for a non-negative
  \<^verbatim>\<open>summary_max_length\<close> this is the text's first \<^verbatim>\<open>summary_max_length\<close> characters.
\<close>

theorem generate_summary_medium_fallback:
  assumes "150 \<le> length text" "length text < 2000"
    and "\<forall>t a b. summarizer t a b = None"
  shows "generate_summary summarizer text max_chunk_chars summary_max_length
           summary_min_length = Some (py_upto text summary_max_length) \<and>
         (0 \<le> summary_max_length \<longrightarrow>
            py_upto text summary_max_length = take (nat summary_max_length) text)"
  using assms by (simp add: generate_summary_def py_upto_def py_index_def min_def)

theorem generate_summary_medium_fallback_witness:
  "150 \<le> length (replicate 1500 (97::nat)) \<and> length (replicate 1500 (97::nat)) < 2000 \<and>
   (\<forall>t a b. failing_summarizer t a b = None) \<and>
   generate_summary failing_summarizer (replicate 1500 97) 800 150 40 =
     Some (replicate 150 97)"
  using generate_summary_medium_fallback
    [of "replicate 1500 97" failing_summarizer 800 150 40]
  by (simp add: failing_summarizer_def)

text \<open>
  Claim C7, as stated: on a long text (2000 characters or more) with a budget that is
  not positive, \<^verbatim>\<open>generate_summary\<close> fails with an orchestration error. The code checks
  no budget and raises nothing: with budget 0 every iteration takes an empty slice and
  moves one character on, no chunk is produced, and the fixed sentence is returned.
\<close>

theorem generate_summary_zero_budget_returns:
  "generate_summary failing_summarizer (replicate 2000 97) 0 150 40 =
     Some (map of_char ''No content to summarize.'')"
  by (simp add: zero_budget_no_content no_content_def)

text \<open>
  Claim C7, amended. On every text of 2000 characters or more, with budget 0,
  \<^verbatim>\<open>generate_summary\<close> returns the fixed sentence \<^verbatim>\<open>No content to summarize.\<close>,
  whatever the capability does. (With a negative budget nothing is raised either; the
  call can fail to return, as lemma \<open>generate_summary_minus_one\<close> shows.)
\<close>

theorem generate_summary_zero_budget:
  assumes "2000 \<le> length text"
  shows "generate_summary summarizer text 0 summary_max_length summary_min_length =
         Some no_content"
  using assms by (rule zero_budget_no_content)

theorem generate_summary_zero_budget_witness:
  "2000 \<le> length (replicate 2500 (32::nat)) \<and>
   generate_summary failing_summarizer (replicate 2500 32) 0 100 20 = Some no_content"
  using generate_summary_zero_budget [of "replicate 2500 32" failing_summarizer 100 20]
  by simp

section \<open>Text extractor\<close>

lemma extract_pages_returns:
  "extract_pages acc (map Returns rs) =
     Inr (acc @ concat (map (\<lambda>t. t @ [10]) (yielded_texts rs)))"
  by (induction rs arbitrary: acc rule: yielded_texts.induct) simp_all

lemma concat_terminated:
  "ts \<noteq> [] \<Longrightarrow> concat (map (\<lambda>t. t @ sep) ts) = py_join sep ts @ sep"
  by (induction sep ts rule: py_join.induct) simp_all

text \<open>
  Claim C9, as stated: the texts of the pages that yield text are concatenated with a
  newline between pages. The code appends a newline after every such page, the last one
  included: two pages \<^verbatim>\<open>a\<close> and \<^verbatim>\<open>b\<close> give \<^verbatim>\<open>a\nb\n\<close>, not \<^verbatim>\<open>a\nb\<close>.
\<close>

theorem extract_two_pages_not_joined:
  "extract_text_from_pdf_fileobj (Returns [Returns (Some [97]), Returns (Some [98])]) \<noteq>
     Inr (py_join [10] [[97], [98]])"
  by (simp add: extract_text_from_pdf_fileobj_def)

text \<open>
  Claim C9, amended. For every sequence of pages, each yielding some text or none, the
  result is the texts of the pages that yield text, in page order, each followed by a
  newline: the texts joined by newlines and one more newline at the end, or the empty
  string when no page yields text. Pages that yield \<^verbatim>\<open>None\<close> or the empty string add
  nothing.
\<close>

theorem extract_text_from_pdf_pages:
  "extract_text_from_pdf_fileobj (Returns (map Returns rs)) =
     Inr (if yielded_texts rs = [] then []
          else py_join [10] (yielded_texts rs) @ [10])"
  by (simp add: extract_text_from_pdf_fileobj_def extract_pages_returns concat_terminated)

section \<open>Highlighter\<close>

lemma argsort_length: "length (argsort xs) = length xs"
  by (simp add: argsort_def)

lemma argsort_set: "set (argsort xs) = {0..<length xs}"
  by (simp add: argsort_def)

lemma argsort_distinct: "distinct (argsort xs)"
  by (simp add: argsort_def)

lemma argsort_sorted: "sorted_wrt (\<lambda>i j. xs ! i \<le> xs ! j) (argsort xs)"
  using sorted_sort_key [of "\<lambda>i. xs ! i" "[0..<length xs]"]
  by (simp add: argsort_def sorted_map)

lemma py_from_last: "0 < k \<Longrightarrow> py_from xs (- k) = drop (length xs - nat k) xs"
proof -
  assume "0 < k"
  then have "nat (int (length xs) - k) = length xs - nat k"
    by linarith
  with \<open>0 < k\<close> show ?thesis
    by (simp add: py_from_def py_index_def)
qed

lemma top_indices_length:
  "0 < k \<Longrightarrow> length (rev (py_from (argsort c) (- k))) = min (nat k) (length c)"
  by (simp add: py_from_last argsort_length)

lemma top_indices_distinct: "0 < k \<Longrightarrow> distinct (rev (py_from (argsort c) (- k)))"
  by (simp add: py_from_last argsort_distinct)

lemma top_indices_range:
  "0 < k \<Longrightarrow> i \<in> set (rev (py_from (argsort c) (- k))) \<Longrightarrow> i < length c"
  using argsort_set [of c] by (auto simp: py_from_last dest: in_set_dropD)

lemma top_indices_sorted:
  "0 < k \<Longrightarrow> sorted_wrt (\<lambda>i j. c ! j \<le> c ! i) (rev (py_from (argsort c) (- k)))"
  using argsort_sorted [of c]
  by (simp add: py_from_last sorted_wrt_rev sorted_wrt_drop)

lemma top_k_few:
  assumes "int (length (split_into_sentences sent_tokenize original_text)) \<le> k"
  shows "top_k_sentences sent_tokenize vectorize original_text summary_text k =
         map (\<lambda>(i, sent). \<lparr>index = int i, sentence = sent, score = 1\<rparr>)
           (enumerate 0 (split_into_sentences sent_tokenize original_text))"
  using assms by (simp add: top_k_sentences_def Let_def enumerate_eq_zip)

lemma top_k_fallback:
  assumes "\<not> int (length (split_into_sentences sent_tokenize original_text)) \<le> k"
    and "vectorize (split_into_sentences sent_tokenize original_text) summary_text = None"
  shows "top_k_sentences sent_tokenize vectorize original_text summary_text k =
         map (\<lambda>i. \<lparr>index = int i,
                    sentence = split_into_sentences sent_tokenize original_text ! i,
                    score = 0.5\<rparr>)
           [0..<nat (min k (int (length (split_into_sentences sent_tokenize original_text))))]"
  using assms
  by (cases "split_into_sentences sent_tokenize original_text = []")
    (simp_all add: top_k_sentences_def Let_def)

lemma combined_scores_length: "length (combined_scores sim n) = n"
  by (simp add: combined_scores_def linspace_def)

lemma top_k_ranked:
  assumes "\<not> int (length (split_into_sentences sent_tokenize original_text)) \<le> k"
    and "vectorize (split_into_sentences sent_tokenize original_text) summary_text = Some sim"
    and "0 < k"
  shows "top_k_sentences sent_tokenize vectorize original_text summary_text k =
         map (\<lambda>idx. \<lparr>index = int idx,
                      sentence = split_into_sentences sent_tokenize original_text ! idx,
                      score = combined_scores sim
                        (length (split_into_sentences sent_tokenize original_text)) ! idx\<rparr>)
           (rev (py_from
              (argsort (combined_scores sim
                 (length (split_into_sentences sent_tokenize original_text)))) (- k)))"
proof -
  have "min k (int (length (split_into_sentences sent_tokenize original_text))) = k"
    using assms(1) by simp
  moreover have "length (split_into_sentences sent_tokenize original_text) \<noteq> 0"
    using assms(1,3) by auto
  ultimately show ?thesis
    using assms(1,2) by (simp add: top_k_sentences_def Let_def combined_scores_def)
qed

lemma nth_prefix_enumerate:
  assumes "m \<le> length xs"
  shows "map (\<lambda>i. g i (xs ! i)) [0..<m] = map (\<lambda>(i, x). g i x) (enumerate 0 (take m xs))"
  using assms by (intro nth_equalityI) (simp_all add: nth_enumerate_eq)

text \<open>
  Claim C6. If the number of sentences of the original text is at most \<open>k\<close>,
  \<^verbatim>\<open>top_k_sentences\<close> returns every sentence in original order, each with score 1.0
  and with its position (from 0) as index.
\<close>

theorem top_k_sentences_few:
  assumes "int (length (split_into_sentences sent_tokenize original_text)) \<le> k"
  shows "top_k_sentences sent_tokenize vectorize original_text summary_text k =
         map (\<lambda>(i, sent). \<lparr>index = int i, sentence = sent, score = 1\<rparr>)
           (enumerate 0 (split_into_sentences sent_tokenize original_text))"
  using assms by (rule top_k_few)

text \<open>
  Claim C5. If the vectorization and scoring step is reached (there are more than \<open>k\<close>
  sentences) and raises, \<^verbatim>\<open>top_k_sentences\<close> returns the first \<open>min k n\<close> of the
  \<open>n\<close> sentences in original order, each with score 0.5; every position it reads is
  inside the sentence list, so nothing is raised.
\<close>

theorem top_k_sentences_fallback:
  assumes "\<not> int (length (split_into_sentences sent_tokenize original_text)) \<le> k"
    and "vectorize (split_into_sentences sent_tokenize original_text) summary_text = None"
  shows "top_k_sentences sent_tokenize vectorize original_text summary_text k =
         map (\<lambda>(i, sent). \<lparr>index = int i, sentence = sent, score = 0.5\<rparr>)
           (enumerate 0
              (take (nat (min k (int (length
                   (split_into_sentences sent_tokenize original_text)))))
                 (split_into_sentences sent_tokenize original_text)))"
proof -
  define S where "S = split_into_sentences sent_tokenize original_text"
  define m where "m = nat (min k (int (length S)))"
  have m: "m \<le> length S"
    by (simp add: m_def)
  have "top_k_sentences sent_tokenize vectorize original_text summary_text k =
        map (\<lambda>i. \<lparr>index = int i, sentence = S ! i, score = 0.5\<rparr>) [0..<m]"
    using assms unfolding S_def m_def by (rule top_k_fallback)
  also have "\<dots> = map (\<lambda>(i, sent). \<lparr>index = int i, sentence = sent, score = 0.5\<rparr>)
                     (enumerate 0 (take m S))"
    using m by (rule nth_prefix_enumerate)
  finally show ?thesis
    unfolding S_def m_def .
qed

text \<open>
  Claim C4. For \<open>k \<ge> 1\<close>, when vectorization and scoring succeed, the highlights
  returned are sorted by non-increasing score and there are \<open>min k n\<close> of them, \<open>n\<close>
  being the number of sentences of the original text.
\<close>

theorem top_k_sentences_sorted_count:
  assumes "1 \<le> k"
    and "vectorize (split_into_sentences sent_tokenize original_text) summary_text = Some sim"
  shows "sorted_wrt (\<lambda>a b. score b \<le> score a)
           (top_k_sentences sent_tokenize vectorize original_text summary_text k) \<and>
         int (length (top_k_sentences sent_tokenize vectorize original_text summary_text k)) =
           min k (int (length (split_into_sentences sent_tokenize original_text)))"
proof (cases "int (length (split_into_sentences sent_tokenize original_text)) \<le> k")
  case True
  then show ?thesis
    by (simp add: top_k_few sorted_wrt_map case_prod_unfold sorted_wrt_iff_nth_less)
next
  case False
  define c where
    "c = combined_scores sim (length (split_into_sentences sent_tokenize original_text))"
  have k: "0 < k" using assms(1) by simp
  have len: "length c = length (split_into_sentences sent_tokenize original_text)"
    by (simp add: c_def combined_scores_length)
  have "int (min (nat k) (length c)) =
        min k (int (length (split_into_sentences sent_tokenize original_text)))"
    using k len by simp
  moreover have "top_k_sentences sent_tokenize vectorize original_text summary_text k =
        map (\<lambda>idx. \<lparr>index = int idx,
                     sentence = split_into_sentences sent_tokenize original_text ! idx,
                     score = c ! idx\<rparr>)
          (rev (py_from (argsort c) (- k)))"
    using False assms(2) k unfolding c_def by (rule top_k_ranked)
  ultimately show ?thesis
    using top_indices_sorted [OF k, of c] top_indices_length [OF k, of c]
    by (simp add: sorted_wrt_map)
qed

text \<open>
  Claim C10. For \<open>k \<ge> 1\<close>, on every path of \<^verbatim>\<open>top_k_sentences\<close>, the index of each
  highlight is at least 0 and below the number of sentences, the sentence of the
  highlight is the sentence of \<^verbatim>\<open>split_into_sentences\<close> at that index, and no two
  highlights have the same index.
\<close>

theorem top_k_sentences_indices:
  assumes "1 \<le> k"
  shows "(\<forall>h \<in> set (top_k_sentences sent_tokenize vectorize original_text summary_text k).
            0 \<le> index h \<and>
            index h < int (length (split_into_sentences sent_tokenize original_text)) \<and>
            sentence h = split_into_sentences sent_tokenize original_text ! nat (index h)) \<and>
         distinct (map index
           (top_k_sentences sent_tokenize vectorize original_text summary_text k))"
proof -
  define S where "S = split_into_sentences sent_tokenize original_text"
  have k: "0 < k" using assms by simp
  have inj: "inj_on int A" for A
    by (simp add: inj_on_def)
  show ?thesis
  proof (cases "int (length S) \<le> k")
    case True
    have "top_k_sentences sent_tokenize vectorize original_text summary_text k =
          map (\<lambda>(i, sent). \<lparr>index = int i, sentence = sent, score = 1\<rparr>) (enumerate 0 S)"
      using True unfolding S_def by (rule top_k_few)
    then show ?thesis
      unfolding S_def [symmetric]
      by (auto simp: in_set_enumerate_eq distinct_map inj_on_def comp_def case_prod_unfold)
  next
    case False
    show ?thesis
    proof (cases "vectorize S summary_text")
      case None
      have "top_k_sentences sent_tokenize vectorize original_text summary_text k =
            map (\<lambda>i. \<lparr>index = int i, sentence = S ! i, score = 0.5\<rparr>)
              [0..<nat (min k (int (length S)))]"
        using False None unfolding S_def by (rule top_k_fallback)
      then show ?thesis
        unfolding S_def [symmetric]
        by (auto simp: distinct_map inj_on_def comp_def)
    next
      case (Some sim)
      define c where "c = combined_scores sim (length S)"
      have len: "length c = length S"
        by (simp add: c_def combined_scores_length)
      have eq: "top_k_sentences sent_tokenize vectorize original_text summary_text k =
            map (\<lambda>idx. \<lparr>index = int idx, sentence = S ! idx, score = c ! idx\<rparr>)
              (rev (py_from (argsort c) (- k)))"
        using False Some k unfolding S_def c_def by (rule top_k_ranked)
      have r: "i < length S" if "i \<in> set (rev (py_from (argsort c) (- k)))" for i
        using top_indices_range [OF k that] len by simp
      have d: "distinct (rev (py_from (argsort c) (- k)))"
        using k by (rule top_indices_distinct)
      have "distinct (map int (rev (py_from (argsort c) (- k))))"
        using d by (simp only: distinct_map inj simp_thms)
      then show ?thesis
        unfolding S_def [symmetric] eq using r
        by (auto simp: comp_def)
    qed
  qed
qed

lemma split_three_sentences:
  "split_into_sentences no_tokenizer three_sentences = [[65, 46], [66, 46], [67, 46]]"
  by (simp add: split_into_sentences_def no_tokenizer_def three_sentences_def py_strip_def
      is_space_def)

lemma ranked_three_sentences:
  "top_k_sentences no_tokenizer sample_vectorizer three_sentences [66] 2 =
   [\<lparr>index = 1, sentence = [66, 46], score = 17 / 20\<rparr>,
    \<lparr>index = 0, sentence = [65, 46], score = 1 / 2\<rparr>]"
  by (simp add: top_k_sentences_def split_three_sentences sample_vectorizer_def sample_sim_def
      Let_def linspace_def argsort_def py_from_def py_index_def
      upt_rec [of _ "numeral _"] upt_rec [of _ "Suc _"] numeral_3_eq_3)

theorem top_k_sentences_few_witness:
  "int (length (split_into_sentences no_tokenizer three_sentences)) \<le> 3 \<and>
   top_k_sentences no_tokenizer failing_vectorizer three_sentences [66] 3 =
   [\<lparr>index = 0, sentence = [65, 46], score = 1\<rparr>,
    \<lparr>index = 1, sentence = [66, 46], score = 1\<rparr>,
    \<lparr>index = 2, sentence = [67, 46], score = 1\<rparr>]"
proof -
  have h: "int (length (split_into_sentences no_tokenizer three_sentences)) \<le> 3"
    by (simp add: split_three_sentences)
  from top_k_sentences_few [OF h, of failing_vectorizer "[66]"] h
  show ?thesis by (simp add: split_three_sentences)
qed

theorem top_k_sentences_fallback_witness:
  "\<not> int (length (split_into_sentences no_tokenizer three_sentences)) \<le> 2 \<and>
   failing_vectorizer (split_into_sentences no_tokenizer three_sentences) [66] = None \<and>
   top_k_sentences no_tokenizer failing_vectorizer three_sentences [66] 2 =
   [\<lparr>index = 0, sentence = [65, 46], score = 1 / 2\<rparr>,
    \<lparr>index = 1, sentence = [66, 46], score = 1 / 2\<rparr>]"
proof -
  have h: "\<not> int (length (split_into_sentences no_tokenizer three_sentences)) \<le> 2"
    by (simp add: split_three_sentences)
  have v: "failing_vectorizer (split_into_sentences no_tokenizer three_sentences) [66] = None"
    by (simp add: failing_vectorizer_def)
  from top_k_sentences_fallback [where vectorize = failing_vectorizer, OF h v] h v
  show ?thesis by (simp add: split_three_sentences)
qed

theorem top_k_sentences_sorted_count_witness:
  "(1::int) \<le> 2 \<and>
   sample_vectorizer (split_into_sentences no_tokenizer three_sentences) [66] =
     Some sample_sim \<and>
   sorted_wrt (\<lambda>a b. score b \<le> score a)
     (top_k_sentences no_tokenizer sample_vectorizer three_sentences [66] 2) \<and>
   int (length (top_k_sentences no_tokenizer sample_vectorizer three_sentences [66] 2)) = 2"
proof -
  have h: "(1::int) \<le> 2" by simp
  have v: "sample_vectorizer (split_into_sentences no_tokenizer three_sentences) [66] =
      Some sample_sim"
    by (simp add: sample_vectorizer_def)
  from top_k_sentences_sorted_count [where vectorize = sample_vectorizer, OF h v] h v
  show ?thesis by (simp add: split_three_sentences)
qed

theorem top_k_sentences_indices_witness:
  "(1::int) \<le> 2 \<and>
   map index (top_k_sentences no_tokenizer sample_vectorizer three_sentences [66] 2) = [1, 0] \<and>
   distinct (map index (top_k_sentences no_tokenizer sample_vectorizer three_sentences [66] 2))"
proof -
  have h: "(1::int) \<le> 2" by simp
  from top_k_sentences_indices [OF h, of no_tokenizer sample_vectorizer three_sentences "[66]"]
  have "distinct (map index
      (top_k_sentences no_tokenizer sample_vectorizer three_sentences [66] 2))"
    by (rule conjunct2)
  then show ?thesis
    by (simp add: ranked_three_sentences)
qed

end
